theory Spec2Isabelle
  imports Main "HOL-Library.Word" "HOL-Library.Sublist"
begin

unbundle bit_operations_syntax

section \<open>Bytes, strings and errors\<close>

text \<open>
  A Python \<open>bytes\<close> value is a list of 8-bit words. A Python \<open>str\<close> is represented by
  the Isabelle string that holds its UTF-8 encoding, one \<open>char\<close> per byte, so
  \<open>str.encode()\<close> reads the characters as bytes and \<open>bytes.decode('utf-8')\<close> succeeds
  exactly on the well-formed UTF-8 byte sequences. Two strings are equal iff their
  representations are, and a string is empty (falsy in Python) iff its representation is.
\<close>

type_synonym byte = "8 word"
type_synonym bytes = "byte list"

text \<open>The Python exceptions the modelled code can raise.\<close>

datatype error = ValueError | UnicodeDecodeError | AttributeError | OverflowError

definition encode :: "string \<Rightarrow> bytes" where
  "encode s = map (\<lambda>c. of_nat (of_char c)) s"

definition xor_bytes :: "bytes \<Rightarrow> bytes \<Rightarrow> bytes" where
  "xor_bytes a b = map2 (XOR) a b"

section \<open>Library primitives\<close>

subsection \<open>PBKDF2 (RFC 8018, section 5.2) over a pseudorandom function\<close>

text \<open>
  \<open>PBKDF2HMAC(algorithm=SHA256, length, salt, iterations).derive(password)\<close> is library
  code. It is modelled by the algorithm of RFC 8018 over the pseudorandom function
  HMAC-SHA256, which is a parameter \<open>prf key message\<close> of the model; its output length is
  \<open>hLen = 32\<close> bytes.
\<close>

type_synonym prfn = "bytes \<Rightarrow> bytes \<Rightarrow> bytes"

definition sha256_digest_size :: nat where
  "sha256_digest_size = 32"

definition is_prf32 :: "prfn \<Rightarrow> bool" where
  "is_prf32 f = (\<forall>k m. length (f k m) = sha256_digest_size)"

definition int32be :: "nat \<Rightarrow> bytes" where
  "int32be i = [of_nat (i div 16777216), of_nat (i div 65536), of_nat (i div 256), of_nat i]"

text \<open>\<open>U_2 .. U_c\<close>, each the PRF of the one before, folded with XOR into \<open>t\<close>.\<close>

fun pbkdf2_rounds :: "prfn \<Rightarrow> bytes \<Rightarrow> nat \<Rightarrow> bytes \<Rightarrow> bytes \<Rightarrow> bytes" where
  "pbkdf2_rounds f p 0 u t = t"
| "pbkdf2_rounds f p (Suc n) u t =
     (let u' = f p u in pbkdf2_rounds f p n u' (xor_bytes t u'))"

definition pbkdf2_block :: "prfn \<Rightarrow> bytes \<Rightarrow> bytes \<Rightarrow> nat \<Rightarrow> nat \<Rightarrow> bytes" where
  "pbkdf2_block f p s c i = (let u1 = f p (s @ int32be i) in pbkdf2_rounds f p (c - 1) u1 u1)"

definition pbkdf2_hmac :: "prfn \<Rightarrow> nat \<Rightarrow> bytes \<Rightarrow> nat \<Rightarrow> bytes \<Rightarrow> bytes" where
  "pbkdf2_hmac f dklen s c p =
     (let l = (dklen + sha256_digest_size - 1) div sha256_digest_size
      in take dklen (concat (map (pbkdf2_block f p s c) [1..<Suc l])))"

subsection \<open>AES as a block cipher parameter, and the cipher object's checks\<close>

text \<open>
  AES is library code: the block encryption \<open>E key block\<close> and decryption \<open>D key block\<close>
  are parameters of the model. \<open>block_cipher E D\<close> is what the model asks of them: blocks
  of 16 bytes map to blocks of 16 bytes and \<open>D\<close> undoes \<open>E\<close>.
  \<open>algorithms.AES(key)\<close> raises \<open>ValueError\<close> unless the key has 16, 24 or 32 bytes, and
  \<open>Cipher(algorithm, mode)\<close> raises \<open>ValueError\<close> unless the IV has 16 bytes.
\<close>

type_synonym blockfn = "bytes \<Rightarrow> bytes \<Rightarrow> bytes"

definition block_size :: nat where
  "block_size = 16"

definition block_fn :: "blockfn \<Rightarrow> bool" where
  "block_fn E = (\<forall>k b. length b = block_size \<longrightarrow> length (E k b) = block_size)"

definition block_cipher :: "blockfn \<Rightarrow> blockfn \<Rightarrow> bool" where
  "block_cipher E D =
     (\<forall>k b. length b = block_size \<longrightarrow> length (E k b) = block_size \<and> D k (E k b) = b)"

definition aes_key_ok :: "bytes \<Rightarrow> bool" where
  "aes_key_ok key = (length key = 16 \<or> length key = 24 \<or> length key = 32)"

definition cipher_ok :: "bytes \<Rightarrow> bytes \<Rightarrow> bool" where
  "cipher_ok key iv = (aes_key_ok key \<and> length iv = block_size)"

subsection \<open>CFB mode (full-block feedback)\<close>

text \<open>
  \<open>modes.CFB\<close>: each ciphertext block is the plaintext block XOR the encryption of the
  previous ciphertext block (the IV first); a final partial block uses as many key stream
  bytes as it has. \<open>update(data) + finalize()\<close> returns the whole output.
\<close>

fun cfb_encrypt :: "blockfn \<Rightarrow> bytes \<Rightarrow> bytes \<Rightarrow> bytes \<Rightarrow> bytes" where
  "cfb_encrypt E k prev data =
     (if data = [] then []
      else (let c = xor_bytes (take 16 data) (E k prev)
            in c @ cfb_encrypt E k c (drop 16 data)))"

fun cfb_decrypt :: "blockfn \<Rightarrow> bytes \<Rightarrow> bytes \<Rightarrow> bytes \<Rightarrow> bytes" where
  "cfb_decrypt E k prev data =
     (if data = [] then []
      else (let c = take 16 data
            in xor_bytes c (E k prev) @ cfb_decrypt E k c (drop 16 data)))"

declare cfb_encrypt.simps [simp del] cfb_decrypt.simps [simp del]

section \<open>durga.py and AI.py: the utility functions\<close>

text \<open>
  \<open>generate_key\<close>, \<open>encrypt_data\<close> and \<open>decrypt_data\<close> are the same in both files. The
  two \<open>os.urandom(16)\<close> results of \<open>encrypt_data\<close> are the arguments \<open>salt\<close> and \<open>iv\<close>.
\<close>

definition generate_key :: "prfn \<Rightarrow> string \<Rightarrow> bytes \<Rightarrow> bytes" where
  "generate_key f password salt = pbkdf2_hmac f 32 salt 100000 (encode password)"

definition encrypt_data :: "prfn \<Rightarrow> blockfn \<Rightarrow> bytes \<Rightarrow> bytes \<Rightarrow> bytes \<Rightarrow> string \<Rightarrow> error + bytes" where
  "encrypt_data f E salt iv data password =
     (let key = generate_key f password salt
      in if \<not> cipher_ok key iv then Inl ValueError
         else Inr (salt @ iv @ cfb_encrypt E key iv data))"

definition decrypt_data :: "prfn \<Rightarrow> blockfn \<Rightarrow> bytes \<Rightarrow> string \<Rightarrow> error + bytes" where
  "decrypt_data f E encrypted_data password =
     (let salt = take 16 encrypted_data;
          iv = take 16 (drop 16 encrypted_data);
          data = drop 32 encrypted_data;
          key = generate_key f password salt
      in if \<not> cipher_ok key iv then Inl ValueError
         else Inr (cfb_decrypt E key iv data))"

subsection \<open>UTF-8 decoding, hex and base64 text, JSON output\<close>

text \<open>
  \<open>bytes.decode('utf-8')\<close> is strict: it raises \<open>UnicodeDecodeError\<close> on a byte sequence
  that is not well-formed UTF-8 (a stray continuation byte, a truncated or overlong
  sequence, a surrogate, a code point above U+10FFFF). \<open>utf8_decode\<close> reads the code
  points of a byte sequence, bytes as numbers.
\<close>

definition is_cont :: "nat \<Rightarrow> bool" where
  "is_cont b = (128 \<le> b \<and> b < 192)"

fun utf8_decode :: "nat list \<Rightarrow> nat list option" where
  "utf8_decode [] = Some []"
| "utf8_decode (b # bs) =
     (if b < 128 then map_option ((#) b) (utf8_decode bs)
      else if 194 \<le> b \<and> b < 224 then
        (case bs of
           c1 # r \<Rightarrow>
             if is_cont c1
             then map_option ((#) ((b - 192) * 64 + (c1 - 128))) (utf8_decode r)
             else None
         | _ \<Rightarrow> None)
      else if 224 \<le> b \<and> b < 240 then
        (case bs of
           c1 # c2 # r \<Rightarrow>
             (let cp = (b - 224) * 4096 + (c1 - 128) * 64 + (c2 - 128)
              in if is_cont c1 \<and> is_cont c2 \<and> 2048 \<le> cp \<and> \<not> (55296 \<le> cp \<and> cp < 57344)
                 then map_option ((#) cp) (utf8_decode r)
                 else None)
         | _ \<Rightarrow> None)
      else if 240 \<le> b \<and> b < 245 then
        (case bs of
           c1 # c2 # c3 # r \<Rightarrow>
             (let cp = (b - 240) * 262144 + (c1 - 128) * 4096 + (c2 - 128) * 64 + (c3 - 128)
              in if is_cont c1 \<and> is_cont c2 \<and> is_cont c3 \<and> 65536 \<le> cp \<and> cp < 1114112
                 then map_option ((#) cp) (utf8_decode r)
                 else None)
         | _ \<Rightarrow> None)
      else None)"

definition decode :: "bytes \<Rightarrow> error + string" where
  "decode bs = (case utf8_decode (map unat bs) of
                  None \<Rightarrow> Inl UnicodeDecodeError
                | Some _ \<Rightarrow> Inr (map (\<lambda>b. char_of (unat b)) bs))"

text \<open>The code points of a string; a string that represents no \<open>str\<close> has none.\<close>

definition codepoints :: "string \<Rightarrow> nat list" where
  "codepoints s = (case utf8_decode (map of_char s) of None \<Rightarrow> [] | Some cps \<Rightarrow> cps)"

definition hexdigit :: "nat \<Rightarrow> char" where
  "hexdigit n = ''0123456789abcdef'' ! (n mod 16)"

definition hex_byte :: "byte \<Rightarrow> string" where
  "hex_byte b = [hexdigit (unat b div 16), hexdigit (unat b)]"

text \<open>\<open>secrets.token_hex(16)\<close>: the hexadecimal text of 16 random bytes \<open>r\<close>.\<close>

definition token_hex :: "bytes \<Rightarrow> string" where
  "token_hex r = concat (map hex_byte r)"

definition urlsafe_alphabet :: string where
  "urlsafe_alphabet = ''ABCDEFGHIJKLMNOPQRSTUVWXYZabcdefghijklmnopqrstuvwxyz0123456789-_''"

fun urlsafe_b64encode :: "bytes \<Rightarrow> string" where
  "urlsafe_b64encode [] = []"
| "urlsafe_b64encode [a] =
     (let n = unat a * 65536
      in [urlsafe_alphabet ! (n div 262144), urlsafe_alphabet ! (n div 4096 mod 64),
          CHR ''='', CHR ''=''])"
| "urlsafe_b64encode [a, b] =
     (let n = unat a * 65536 + unat b * 256
      in [urlsafe_alphabet ! (n div 262144), urlsafe_alphabet ! (n div 4096 mod 64),
          urlsafe_alphabet ! (n div 64 mod 64), CHR ''=''])"
| "urlsafe_b64encode (a # b # c # r) =
     (let n = unat a * 65536 + unat b * 256 + unat c
      in [urlsafe_alphabet ! (n div 262144), urlsafe_alphabet ! (n div 4096 mod 64),
          urlsafe_alphabet ! (n div 64 mod 64), urlsafe_alphabet ! (n mod 64)]
         @ urlsafe_b64encode r)"

text \<open>
  \<open>json.dumps\<close> with its defaults: separators \<open>", "\<close> and \<open>": "\<close>, and every character
  outside printable ASCII escaped (\<open>ensure_ascii\<close>), a code point above U+FFFF as a
  surrogate pair. A number carries its text (\<open>repr\<close> of the float).
\<close>

datatype json = JNull | JBool bool | JNum string | JStr string | JArr "json list"
  | JObj "(string \<times> json) list"

definition hex4 :: "nat \<Rightarrow> string" where
  "hex4 n = [hexdigit (n div 4096), hexdigit (n div 256), hexdigit (n div 16), hexdigit n]"

definition json_escape_cp :: "nat \<Rightarrow> string" where
  "json_escape_cp cp =
     (if cp = 34 then [CHR 0x5C, CHR 0x22]
      else if cp = 92 then [CHR 0x5C, CHR 0x5C]
      else if cp = 10 then [CHR 0x5C, CHR ''n'']
      else if cp = 13 then [CHR 0x5C, CHR ''r'']
      else if cp = 9 then [CHR 0x5C, CHR ''t'']
      else if cp = 8 then [CHR 0x5C, CHR ''b'']
      else if cp = 12 then [CHR 0x5C, CHR ''f'']
      else if 32 \<le> cp \<and> cp < 127 then [char_of cp]
      else if cp < 65536 then [CHR 0x5C, CHR ''u''] @ hex4 cp
      else (let n = cp - 65536
            in [CHR 0x5C, CHR ''u''] @ hex4 (55296 + n div 1024 mod 1024)
               @ [CHR 0x5C, CHR ''u''] @ hex4 (56320 + n mod 1024)))"

definition json_dumps_str :: "string \<Rightarrow> string" where
  "json_dumps_str s = [CHR 0x22] @ concat (map json_escape_cp (codepoints s)) @ [CHR 0x22]"

fun join_with :: "string \<Rightarrow> string list \<Rightarrow> string" where
  "join_with sep [] = []"
| "join_with sep [x] = x"
| "join_with sep (x # y # ys) = x @ sep @ join_with sep (y # ys)"

fun json_dumps :: "json \<Rightarrow> string" where
  "json_dumps JNull = ''null''"
| "json_dumps (JBool b) = (if b then ''true'' else ''false'')"
| "json_dumps (JNum n) = n"
| "json_dumps (JStr s) = json_dumps_str s"
| "json_dumps (JArr xs) = ''['' @ join_with '', '' (map json_dumps xs) @ '']''"
| "json_dumps (JObj kvs) =
     ''{'' @ join_with '', '' (map (\<lambda>kv. json_dumps_str (fst kv) @ '': '' @ json_dumps (snd kv)) kvs)
     @ ''}''"

text \<open>\<open>dict.get(key)\<close> on a parsed value: \<open>None\<close> for a missing key, and only a
  dictionary has the method.\<close>

definition json_get :: "json \<Rightarrow> string \<Rightarrow> error + json" where
  "json_get v key =
     (case v of
        JObj kvs \<Rightarrow> (case map_of kvs key of None \<Rightarrow> Inr JNull | Some x \<Rightarrow> Inr x)
      | _ \<Rightarrow> Inl AttributeError)"

text \<open>\<open>int.from_bytes(b, byteorder='big')\<close> and \<open>n.to_bytes(4, byteorder='big')\<close>.\<close>

definition int_from_bytes :: "bytes \<Rightarrow> nat" where
  "int_from_bytes b = foldl (\<lambda>n x. n * 256 + unat x) 0 b"

section \<open>durga.py: the editor's password, save and open\<close>

text \<open>
  The editor object keeps \<open>current_password\<close> and \<open>recovery_key\<close> between calls (both
  \<open>None\<close> at start; \<open>recovery_key\<close> holds whatever JSON value was last stored in it).
  What the user answers in a dialog is an argument: a text with the dialog's \<open>ok\<close> flag.
\<close>

record editor =
  text_edit :: string
  current_password :: "string option"
  recovery_key :: json

definition set_password :: "editor \<Rightarrow> string \<times> bool \<Rightarrow> bytes \<Rightarrow> editor" where
  "set_password st answer r =
     (let (password, ok) = answer
      in if ok \<and> password \<noteq> []
         then st\<lparr>current_password := Some password, recovery_key := JStr (token_hex r)\<rparr>
         else st)"

datatype save_outcome = PasswordError | NoPath | EncryptionError error | Saved bytes

text \<open>
  \<open>save_encrypted_file\<close>: \<open>path\<close> tells whether the file dialog gave a path, \<open>created_at\<close>
  is the text of \<open>time.time()\<close>, \<open>salt\<close> and \<open>iv\<close> are the random bytes drawn by
  \<open>encrypt_data\<close>. The result \<open>Saved\<close> carries the bytes written to the file:
  the size of the recovery information in 4 bytes, the recovery information, the
  encrypted data.
\<close>

definition save_encrypted_file ::
  "prfn \<Rightarrow> blockfn \<Rightarrow> editor \<Rightarrow> bool \<Rightarrow> string \<Rightarrow> bytes \<Rightarrow> bytes \<Rightarrow> save_outcome" where
  "save_encrypted_file f E st path created_at salt iv =
     (case current_password st of
        None \<Rightarrow> PasswordError
      | Some pw \<Rightarrow>
          if pw = [] then PasswordError
          else if \<not> path then NoPath
          else (case encrypt_data f E salt iv (encode (text_edit st)) pw of
                  Inl e \<Rightarrow> EncryptionError e
                | Inr encrypted_data \<Rightarrow>
                    (let recovery_data =
                           JObj [(''recovery_key'', recovery_key st), (''created_at'', JNum created_at)];
                         recovery_info = encode (json_dumps recovery_data);
                         recovery_size = length recovery_info
                     in if 4294967296 \<le> recovery_size then EncryptionError OverflowError
                        else Saved (int32be recovery_size @ recovery_info @ encrypted_data))))"

record answers =
  a_password :: "string \<times> bool"
  a_use_recovery :: bool
  a_recovery :: "string \<times> bool"
  a_new_password :: "string \<times> bool"

datatype open_outcome =
    Decrypted editor
  | NoPassword
  | RecoveryDeclined
  | RecoverySuccessful editor
  | NewPasswordCancelled
  | RecoveryFailed
  | DecryptionError error

text \<open>The two statements \<open>decrypt_data(encrypted_data, password)\<close> and
  \<open>decrypted_data.decode('utf-8')\<close>, which the function runs in both of its attempts.\<close>

definition decrypt_text :: "prfn \<Rightarrow> blockfn \<Rightarrow> bytes \<Rightarrow> string \<Rightarrow> error + string" where
  "decrypt_text f E encrypted_data password =
     (case decrypt_data f E encrypted_data password of
        Inl e \<Rightarrow> Inl e
      | Inr decrypted_data \<Rightarrow> decode decrypted_data)"

text \<open>
  The \<open>with open(path, 'rb')\<close> block of \<open>open_encrypted_file\<close>, on the bytes of the
  chosen file: the size in the first 4 bytes, the recovery information of that size
  parsed as JSON, its \<open>recovery_key\<close> entry, and the rest of the file as the encrypted
  data. Reading past the end of the file gives what is there. \<open>json.loads\<close> is library
  code: the parser is the parameter \<open>loads\<close>.
\<close>

definition read_header :: "(string \<Rightarrow> error + json) \<Rightarrow> bytes \<Rightarrow> error + json \<times> bytes" where
  "read_header loads file =
     (let recovery_size = int_from_bytes (take 4 file);
          recovery_info = take recovery_size (drop 4 file)
      in case decode recovery_info of
           Inl e \<Rightarrow> Inl e
         | Inr header \<Rightarrow>
        (case loads header of
           Inl e \<Rightarrow> Inl e
         | Inr recovery_data \<Rightarrow>
        (case json_get recovery_data ''recovery_key'' of
           Inl e \<Rightarrow> Inl e
         | Inr stored_recovery_key \<Rightarrow>
             Inr (stored_recovery_key, drop recovery_size (drop 4 file)))))"

text \<open>
  \<open>open_encrypted_file\<close>. An exception of the password attempt leads to the recovery
  question; any other exception is caught by the outer handler (\<open>DecryptionError\<close>).
\<close>

definition open_encrypted_file ::
  "prfn \<Rightarrow> blockfn \<Rightarrow> (string \<Rightarrow> error + json) \<Rightarrow> editor \<Rightarrow> bytes \<Rightarrow> answers \<Rightarrow> open_outcome" where
  "open_encrypted_file f E loads st file ans =
     (case read_header loads file of
        Inl e \<Rightarrow> DecryptionError e
      | Inr (stored_recovery_key, encrypted_data) \<Rightarrow>
        (let (password, ok) = a_password ans
         in if \<not> ok \<or> password = [] then NoPassword
            else
              (case decrypt_text f E encrypted_data password of
                 Inr text \<Rightarrow>
                   Decrypted (st\<lparr>text_edit := text, current_password := Some password,
                                  recovery_key := stored_recovery_key\<rparr>)
               | Inl _ \<Rightarrow>
                   if \<not> a_use_recovery ans then RecoveryDeclined
                   else
                     (let (recovery, ok) = a_recovery ans
                      in if ok \<and> recovery \<noteq> [] \<and> JStr recovery = stored_recovery_key
                         then
                           (let (new_password, ok) = a_new_password ans
                            in if ok \<and> new_password \<noteq> []
                               then
                                 (case decrypt_text f E encrypted_data password of
                                    Inl e \<Rightarrow> DecryptionError e
                                  | Inr text \<Rightarrow>
                                      RecoverySuccessful
                                        (st\<lparr>text_edit := text,
                                             current_password := Some new_password\<rparr>))
                               else NewPasswordCancelled)
                         else RecoveryFailed))))"

section \<open>passward.py: the file encryptor\<close>

subsection \<open>PKCS7 padding contexts and CBC mode\<close>

text \<open>
  \<open>padding.PKCS7(128).padder()\<close> and \<open>.unpadder()\<close> make a fresh context with an empty
  buffer. A context is modelled by its buffer: \<open>update\<close> returns the new buffer and the
  bytes it hands out, \<open>finalize\<close> the last bytes. A padder hands out every complete block
  and pads what is left; an unpadder holds the last complete block back, and its
  \<open>finalize\<close> raises \<open>ValueError\<close> unless the buffer is one block ending in valid padding.
\<close>

definition padder_update :: "bytes \<Rightarrow> bytes \<Rightarrow> bytes \<times> bytes" where
  "padder_update buffer data =
     (let b = buffer @ data; n = (length b div 16) * 16 in (drop n b, take n b))"

definition padder_finalize :: "bytes \<Rightarrow> bytes" where
  "padder_finalize buffer =
     (let pad_size = 16 - length buffer in buffer @ replicate pad_size (of_nat pad_size))"

definition unpadder_update :: "bytes \<Rightarrow> bytes \<Rightarrow> bytes \<times> bytes" where
  "unpadder_update buffer data =
     (let b = buffer @ data; n = (length b div 16 - 1) * 16 in (drop n b, take n b))"

definition unpadder_finalize :: "bytes \<Rightarrow> error + bytes" where
  "unpadder_finalize buffer =
     (if length buffer \<noteq> 16 then Inl ValueError
      else (let pad_size = unat (last buffer)
            in if pad_size = 0 \<or> 16 < pad_size
                  \<or> \<not> list_all (\<lambda>x. unat x = pad_size) (drop (16 - pad_size) buffer)
               then Inl ValueError
               else Inr (take (16 - pad_size) buffer)))"

text \<open>\<open>modes.CBC\<close>; \<open>update(data) + finalize()\<close> raises \<open>ValueError\<close> when the data is
  not a whole number of blocks.\<close>

fun cbc_encrypt :: "blockfn \<Rightarrow> bytes \<Rightarrow> bytes \<Rightarrow> bytes \<Rightarrow> bytes" where
  "cbc_encrypt E k prev data =
     (if length data < 16 then []
      else (let c = E k (xor_bytes (take 16 data) prev)
            in c @ cbc_encrypt E k c (drop 16 data)))"

fun cbc_decrypt :: "blockfn \<Rightarrow> bytes \<Rightarrow> bytes \<Rightarrow> bytes \<Rightarrow> bytes" where
  "cbc_decrypt D k prev data =
     (if length data < 16 then []
      else (let c = take 16 data
            in xor_bytes (D k c) prev @ cbc_decrypt D k c (drop 16 data)))"

declare cbc_encrypt.simps [simp del] cbc_decrypt.simps [simp del]

definition cbc_encryptor :: "blockfn \<Rightarrow> bytes \<Rightarrow> bytes \<Rightarrow> bytes \<Rightarrow> error + bytes" where
  "cbc_encryptor E key iv data =
     (if \<not> cipher_ok key iv \<or> length data mod 16 \<noteq> 0 then Inl ValueError
      else Inr (cbc_encrypt E key iv data))"

definition cbc_decryptor :: "blockfn \<Rightarrow> bytes \<Rightarrow> bytes \<Rightarrow> bytes \<Rightarrow> error + bytes" where
  "cbc_decryptor D key iv data =
     (if \<not> cipher_ok key iv \<or> length data mod 16 \<noteq> 0 then Inl ValueError
      else Inr (cbc_decrypt D key iv data))"

subsection \<open>The helper functions\<close>

definition generate_key_cbc :: "prfn \<Rightarrow> string \<Rightarrow> bytes \<Rightarrow> bytes" where
  "generate_key_cbc f password salt = pbkdf2_hmac f 32 salt 390000 (encode password)"

text \<open>\<open>encrypt_data(data, key)\<close> of passward.py; \<open>iv\<close> is its \<open>os.urandom(16)\<close>. One
  padder pads the data.\<close>

definition encrypt_data_cbc :: "blockfn \<Rightarrow> bytes \<Rightarrow> bytes \<Rightarrow> bytes \<Rightarrow> error + bytes \<times> bytes" where
  "encrypt_data_cbc E iv data key =
     (let (buffer, out) = padder_update [] data;
          padded_data = out @ padder_finalize buffer
      in case cbc_encryptor E key iv padded_data of
           Inl e \<Rightarrow> Inl e
         | Inr encrypted \<Rightarrow> Inr (encrypted, iv))"

text \<open>\<open>decrypt_data(encrypted, key, iv)\<close> of passward.py. One unpadder strips the
  padding.\<close>

definition decrypt_data_cbc :: "blockfn \<Rightarrow> bytes \<Rightarrow> bytes \<Rightarrow> bytes \<Rightarrow> error + bytes" where
  "decrypt_data_cbc D encrypted key iv =
     (case cbc_decryptor D key iv encrypted of
        Inl e \<Rightarrow> Inl e
      | Inr decrypted_padded \<Rightarrow>
          (let (buffer, out) = unpadder_update [] decrypted_padded
           in case unpadder_finalize buffer of
                Inl e \<Rightarrow> Inl e
              | Inr rest \<Rightarrow> Inr (out @ rest)))"

text \<open>\<open>generate_recovery_key()\<close> on its 16 random bytes \<open>r\<close>.\<close>

definition generate_recovery_key :: "bytes \<Rightarrow> string" where
  "generate_recovery_key r = urlsafe_b64encode r"

subsection \<open>The application: encrypt\_file and decrypt\_file\<close>

text \<open>
  The container is the dictionary \<open>file_content\<close>, its fields before the base64 and JSON
  text encoding that \<open>encrypt_file\<close> writes and \<open>decrypt_file\<close> reads back.
\<close>

record container =
  c_salt :: bytes
  c_iv :: bytes
  c_encrypted_data :: bytes
  c_recovery_salt :: bytes
  c_encrypted_key :: bytes

datatype encrypt_outcome = EncryptCancelled | EncryptRaised error | Encrypted container string

text \<open>
  \<open>encrypt_file\<close>: \<open>answer\<close> is the password dialog, \<open>data\<close> the file read, \<open>salt\<close>, \<open>iv\<close>,
  \<open>r\<close> and \<open>recovery_salt\<close> the four random draws in the order the code makes them,
  \<open>out_path\<close> whether the save dialog gave a path. The padded key is built from two
  padders: the output of one's \<open>update(key)\<close> and a fresh one's \<open>finalize()\<close>. The result
  \<open>Encrypted\<close> carries the container written and the recovery key shown to the user.
\<close>

definition encrypt_file ::
  "prfn \<Rightarrow> blockfn \<Rightarrow> string \<times> bool \<Rightarrow> bytes \<Rightarrow> bytes \<Rightarrow> bytes \<Rightarrow> bytes \<Rightarrow> bytes \<Rightarrow> bool
     \<Rightarrow> encrypt_outcome" where
  "encrypt_file f E answer data salt iv r recovery_salt out_path =
     (let (password, ok) = answer
      in if \<not> ok \<or> password = [] then EncryptCancelled
         else
           (let key = generate_key_cbc f password salt
            in case encrypt_data_cbc E iv data key of
                 Inl e \<Rightarrow> EncryptRaised e
               | Inr (encrypted, iv) \<Rightarrow>
                   (let recovery_key = generate_recovery_key r;
                        recovery_key_bytes = generate_key_cbc f recovery_key recovery_salt;
                        padded_key = snd (padder_update [] key) @ padder_finalize []
                    in case cbc_encryptor E recovery_key_bytes iv padded_key of
                         Inl e \<Rightarrow> EncryptRaised e
                       | Inr encrypted_key \<Rightarrow>
                           if \<not> out_path then EncryptCancelled
                           else Encrypted
                                  \<lparr>c_salt = salt, c_iv = iv, c_encrypted_data = encrypted,
                                   c_recovery_salt = recovery_salt,
                                   c_encrypted_key = encrypted_key\<rparr>
                                  recovery_key)))"

datatype decryption_method = Password | RecoveryKey

datatype decrypt_outcome = DecryptCancelled | WrongPassword | InvalidRecovery | DecryptedFile bytes

text \<open>
  \<open>decrypt_file\<close>: \<open>method\<close> is the chosen decryption method and \<open>answer\<close> the dialog for
  the password or the recovery key. Each branch catches every exception and reports it
  (\<open>WrongPassword\<close>: "Wrong password or corrupted file.", \<open>InvalidRecovery\<close>: "Invalid
  recovery key or file corrupted."). In the recovery branch the key is built from two
  unpadders: the output of one's \<open>update(padded_key)\<close> and a fresh one's \<open>finalize()\<close>.
\<close>

definition decrypt_file ::
  "prfn \<Rightarrow> blockfn \<Rightarrow> container \<Rightarrow> decryption_method \<Rightarrow> string \<times> bool \<Rightarrow> decrypt_outcome" where
  "decrypt_file f D content method answer =
     (let salt = c_salt content; iv = c_iv content; encrypted_data = c_encrypted_data content;
          (secret, ok) = answer
      in if \<not> ok then DecryptCancelled
         else
           (case method of
              Password \<Rightarrow>
                (let key = generate_key_cbc f secret salt
                 in case decrypt_data_cbc D encrypted_data key iv of
                      Inl e \<Rightarrow> WrongPassword
                    | Inr decrypted \<Rightarrow> DecryptedFile decrypted)
            | RecoveryKey \<Rightarrow>
                (let recovery_salt = c_recovery_salt content;
                     encrypted_key = c_encrypted_key content;
                     recovery_key_bytes = generate_key_cbc f secret recovery_salt
                 in case cbc_decryptor D recovery_key_bytes iv encrypted_key of
                      Inl e \<Rightarrow> InvalidRecovery
                    | Inr padded_key \<Rightarrow>
                        (case unpadder_finalize [] of
                           Inl e \<Rightarrow> InvalidRecovery
                         | Inr rest \<Rightarrow>
                             (let key = snd (unpadder_update [] padded_key) @ rest
                              in case decrypt_data_cbc D encrypted_data key iv of
                                   Inl e \<Rightarrow> InvalidRecovery
                                 | Inr decrypted \<Rightarrow> DecryptedFile decrypted)))))"

text \<open>What one padder makes of \<open>data\<close>: the data followed by 1 to 16 bytes, each the
  number of bytes added.\<close>

definition pkcs7_padded :: "bytes \<Rightarrow> bytes" where
  "pkcs7_padded data =
     data @ replicate (16 - length data mod 16) (of_nat (16 - length data mod 16))"

section \<open>Stand-ins for the library parameters at concrete inputs\<close>

text \<open>
  Small functions of the right shape, used where a statement is evaluated at a concrete
  input: a 32-byte pseudorandom function, an invertible block function with its inverse,
  and a parser that knows one header.
\<close>

definition demo_prf :: prfn where
  "demo_prf k m = take 32 (k @ m @ replicate 32 0)"

definition demo_E :: blockfn where
  "demo_E k b = map (\<lambda>x. x + sum_list k) (rev b)"

definition demo_D :: blockfn where
  "demo_D k b = rev (map (\<lambda>x. x - sum_list k) b)"

text \<open>The container of a successful \<open>encrypt_file\<close>, and the seal used as the running
  example: the text "hello world" under the password "correct-horse".\<close>

definition sealed :: "encrypt_outcome \<Rightarrow> container option" where
  "sealed out = (case out of Encrypted c rk \<Rightarrow> Some c | _ \<Rightarrow> None)"

definition example_seal :: encrypt_outcome where
  "example_seal =
     encrypt_file demo_prf demo_E (''correct-horse'', True) (encode ''hello world'')
       (replicate 16 1) (replicate 16 2) (replicate 16 3) (replicate 16 4) True"

text \<open>
  A parser for the headers \<open>save_encrypted_file\<close> writes when the recovery key is plain
  text: it reads the key up to the closing quote and the number up to the closing brace,
  and raises on anything else.
\<close>

definition demo_loads :: \<open>string \<Rightarrow> error + json\<close> where
  \<open>demo_loads s =
     (let pre = ''{"recovery_key": "'';
          key = takeWhile (\<lambda>c. c \<noteq> CHR 0x22) (drop (length pre) s);
          rest = drop (length pre + length key) s;
          mid = ''", "created_at": '';
          num = takeWhile (\<lambda>c. c \<noteq> CHR ''}'') (drop (length mid) rest)
      in if take (length pre) s = pre \<and> CHR 0x5C \<notin> set key \<and> take (length mid) rest = mid
            \<and> num \<noteq> [] \<and> drop (length mid + length num) rest = ''}''
         then Inr (JObj [(''recovery_key'', JStr key), (''created_at'', JNum num)])
         else Inl ValueError)\<close>

text \<open>Characters that \<open>json.dumps\<close> writes as they are: printable ASCII other than the
  double quote and the backslash.\<close>

definition plain :: "char \<Rightarrow> bool" where
  "plain c = (32 \<le> (of_char c :: nat) \<and> (of_char c :: nat) < 127
              \<and> (of_char c :: nat) \<noteq> 34 \<and> (of_char c :: nat) \<noteq> 92)"

text \<open>The bytes a successful \<open>save_encrypted_file\<close> wrote, and the editor of the running
  example: the text "hello world", no password set yet.\<close>

definition saved_bytes :: "save_outcome \<Rightarrow> bytes" where
  "saved_bytes out = (case out of Saved b \<Rightarrow> b | _ \<Rightarrow> [])"

definition example_editor :: editor where
  "example_editor = \<lparr>text_edit = ''hello world'', current_password = None, recovery_key = JNull\<rparr>"

text \<open>The recovery information \<open>json.dumps\<close> writes for a plain recovery key \<open>k\<close> and
  the time text \<open>t\<close>.\<close>

definition header_of :: \<open>string \<Rightarrow> string \<Rightarrow> string\<close> where
  \<open>header_of k t = ''{"recovery_key": "'' @ k @ ''", "created_at": '' @ t @ ''}''\<close>

text \<open>The answers of a user who confirms every dialog of \<open>open_encrypted_file\<close>.\<close>

definition answering :: "string \<Rightarrow> string \<Rightarrow> string \<Rightarrow> answers" where
  "answering password recovery new_password =
     \<lparr>a_password = (password, True), a_use_recovery = True, a_recovery = (recovery, True),
      a_new_password = (new_password, True)\<rparr>"

section \<open>Properties\<close>

lemma length_xor_bytes: "length (xor_bytes a b) = min (length a) (length b)"
  by (simp add: xor_bytes_def)

lemma xor_bytes_cancel: "length a \<le> length b \<Longrightarrow> xor_bytes (xor_bytes a b) b = a"
proof (induction a arbitrary: b)
  case Nil
  then show ?case by (simp add: xor_bytes_def)
next
  case (Cons x xs)
  then obtain y ys where b: "b = y # ys" by (cases b) auto
  with Cons.prems have "length xs \<le> length ys" by simp
  then have "xor_bytes (xor_bytes xs ys) ys = xs" by (rule Cons.IH)
  then show ?case by (simp add: b xor_bytes_def xor.assoc)
qed

lemma length_pbkdf2_rounds:
  "is_prf32 f \<Longrightarrow> length t = 32 \<Longrightarrow> length (pbkdf2_rounds f p n u t) = 32"
proof (induction n arbitrary: u t)
  case 0
  then show ?case by simp
next
  case (Suc n)
  from Suc.prems have "length (xor_bytes t (f p u)) = 32"
    by (simp add: length_xor_bytes is_prf32_def sha256_digest_size_def)
  with Suc.IH Suc.prems(1) show ?case by (simp add: Let_def)
qed

lemma length_pbkdf2_block: "is_prf32 f \<Longrightarrow> length (pbkdf2_block f p s c i) = 32"
  by (simp add: pbkdf2_block_def Let_def length_pbkdf2_rounds is_prf32_def sha256_digest_size_def)

lemma length_pbkdf2_hmac_32: "is_prf32 f \<Longrightarrow> length (pbkdf2_hmac f 32 s c p) = 32"
  by (simp add: pbkdf2_hmac_def sha256_digest_size_def length_pbkdf2_block)

lemma length_generate_key: "is_prf32 f \<Longrightarrow> length (generate_key f password salt) = 32"
  by (simp add: generate_key_def length_pbkdf2_hmac_32)

lemma cfb_encrypt_step:
  "data \<noteq> [] \<Longrightarrow> cfb_encrypt E k prev data =
     xor_bytes (take 16 data) (E k prev) @
     cfb_encrypt E k (xor_bytes (take 16 data) (E k prev)) (drop 16 data)"
  by (subst cfb_encrypt.simps) (simp add: Let_def)

lemma cfb_decrypt_step:
  "data \<noteq> [] \<Longrightarrow> cfb_decrypt E k prev data =
     xor_bytes (take 16 data) (E k prev) @ cfb_decrypt E k (take 16 data) (drop 16 data)"
  by (subst cfb_decrypt.simps) (simp add: Let_def)

lemma cfb_roundtrip:
  "block_fn E \<Longrightarrow> length prev = 16 \<Longrightarrow> cfb_decrypt E k prev (cfb_encrypt E k prev data) = data"
proof (induction E k prev data rule: cfb_encrypt.induct)
  case (1 E k prev data)
  show ?case
  proof (cases "data = []")
    case True
    then show ?thesis by (simp add: cfb_encrypt.simps cfb_decrypt.simps)
  next
    case False
    define c where "c = xor_bytes (take 16 data) (E k prev)"
    from "1.prems" have lenE: "length (E k prev) = 16"
      by (simp add: block_fn_def block_size_def)
    then have lenc: "length c = min 16 (length data)"
      by (simp add: c_def length_xor_bytes)
    have undo: "xor_bytes c (E k prev) = take 16 data"
      unfolding c_def by (rule xor_bytes_cancel) (simp add: lenE)
    have enc: "cfb_encrypt E k prev data = c @ cfb_encrypt E k c (drop 16 data)"
      using False by (subst cfb_encrypt.simps) (simp add: c_def Let_def)
    have rest: "cfb_decrypt E k c (cfb_encrypt E k c (drop 16 data)) = drop 16 data"
    proof (cases "length data \<le> 16")
      case True
      then show ?thesis by (simp add: cfb_encrypt.simps cfb_decrypt.simps)
    next
      case long: False
      with lenc have "length c = 16" by simp
      with "1.IH" [OF False c_def "1.prems"(1)] show ?thesis by simp
    qed
    have cne: "c \<noteq> []" using False lenc by (cases data) auto
    have tk: "take 16 (c @ cfb_encrypt E k c (drop 16 data)) = c"
    proof (cases "length data \<le> 16")
      case True
      with lenc show ?thesis by (simp add: cfb_encrypt.simps)
    next
      case False
      with lenc show ?thesis by simp
    qed
    have dr: "drop 16 (c @ cfb_encrypt E k c (drop 16 data)) = cfb_encrypt E k c (drop 16 data)"
    proof (cases "length data \<le> 16")
      case True
      with lenc show ?thesis by (simp add: cfb_encrypt.simps)
    next
      case False
      with lenc show ?thesis by simp
    qed
    define r where "r = cfb_encrypt E k c (drop 16 data)"
    have "c @ r \<noteq> []" using cne by simp
    then have "cfb_decrypt E k prev (c @ r) =
          xor_bytes (take 16 (c @ r)) (E k prev) @ cfb_decrypt E k (take 16 (c @ r)) (drop 16 (c @ r))"
      by (rule cfb_decrypt_step)
    then have "cfb_decrypt E k prev (c @ r) = xor_bytes c (E k prev) @ cfb_decrypt E k c r"
      using tk dr unfolding r_def by simp
    with enc undo rest show ?thesis by (simp add: r_def)
  qed
qed

lemma length_cfb_decrypt:
  "block_fn E \<Longrightarrow> length prev = 16 \<Longrightarrow> length (cfb_decrypt E k prev data) = length data"
proof (induction E k prev data rule: cfb_decrypt.induct)
  case (1 E k prev data)
  show ?case
  proof (cases "data = []")
    case True
    then show ?thesis by (simp add: cfb_decrypt.simps)
  next
    case False
    from "1.prems" have lenE: "length (E k prev) = 16"
      by (simp add: block_fn_def block_size_def)
    have step: "cfb_decrypt E k prev data =
        xor_bytes (take 16 data) (E k prev) @ cfb_decrypt E k (take 16 data) (drop 16 data)"
      using False by (subst cfb_decrypt.simps) (simp add: Let_def)
    show ?thesis
    proof (cases "length data \<le> 16")
      case True
      then show ?thesis by (simp add: step length_xor_bytes lenE cfb_decrypt.simps)
    next
      case long: False
      then have "length (take 16 data) = 16" by simp
      with "1.IH" [OF False refl "1.prems"(1)]
      have "length (cfb_decrypt E k (take 16 data) (drop 16 data)) = length data - 16" by simp
      with long show ?thesis by (simp add: step length_xor_bytes lenE)
    qed
  qed
qed


lemma demo_prf_ok: "is_prf32 demo_prf"
  by (auto simp add: is_prf32_def demo_prf_def sha256_digest_size_def)

lemma demo_block_cipher: "block_cipher demo_E demo_D"
  by (simp add: block_cipher_def demo_E_def demo_D_def rev_map o_def)

lemma block_cipher_fn: "block_cipher E D \<Longrightarrow> block_fn E"
  by (simp add: block_cipher_def block_fn_def)

lemma length_generate_key_cbc: "is_prf32 f \<Longrightarrow> length (generate_key_cbc f password salt) = 32"
  by (simp add: generate_key_cbc_def length_pbkdf2_hmac_32)

lemma cipher_ok_32: "length key = 32 \<Longrightarrow> length iv = 16 \<Longrightarrow> cipher_ok key iv"
  by (simp add: cipher_ok_def aes_key_ok_def block_size_def)

lemma decrypt_encrypt_data:
  assumes "is_prf32 f" "block_fn E" "length salt = 16" "length iv = 16"
  shows "encrypt_data f E salt iv P W = Inr (salt @ iv @ cfb_encrypt E (generate_key f W salt) iv P)"
    and "decrypt_data f E (salt @ iv @ cfb_encrypt E (generate_key f W salt) iv P) W = Inr P"
  using assms
  by (simp_all add: encrypt_data_def decrypt_data_def Let_def cipher_ok_32 length_generate_key
      cfb_roundtrip)

lemma pad_data:
  "(let (buffer, out) = padder_update [] data in out @ padder_finalize buffer) = pkcs7_padded data"
proof -
  have "length data - length data div 16 * 16 = length data mod 16"
    by (simp add: minus_div_mult_eq_mod)
  then show ?thesis
    unfolding pkcs7_padded_def by (simp add: padder_update_def padder_finalize_def Let_def)
qed

lemma cbc_encrypt_step:
  "16 \<le> length data \<Longrightarrow> cbc_encrypt E k prev data =
     E k (xor_bytes (take 16 data) prev) @
     cbc_encrypt E k (E k (xor_bytes (take 16 data) prev)) (drop 16 data)"
  by (subst cbc_encrypt.simps) (simp add: Let_def)

lemma cbc_decrypt_step:
  "16 \<le> length data \<Longrightarrow> cbc_decrypt D k prev data =
     xor_bytes (D k (take 16 data)) prev @ cbc_decrypt D k (take 16 data) (drop 16 data)"
  by (subst cbc_decrypt.simps) (simp add: Let_def)

lemma cbc_roundtrip:
  "block_cipher E D \<Longrightarrow> length prev = 16 \<Longrightarrow> length data mod 16 = 0 \<Longrightarrow>
   cbc_decrypt D k prev (cbc_encrypt E k prev data) = data"
proof (induction E k prev data rule: cbc_encrypt.induct)
  case (1 E k prev data)
  show ?case
  proof (cases "length data < 16")
    case True
    with "1.prems" have "data = []" by simp
    then show ?thesis by (simp add: cbc_encrypt.simps cbc_decrypt.simps)
  next
    case False
    define x where "x = xor_bytes (take 16 data) prev"
    define c where "c = E k x"
    have lenx: "length x = 16" using False "1.prems" by (simp add: x_def length_xor_bytes)
    with "1.prems"(1) have lenc: "length c = 16" and dec: "D k c = x"
      by (simp_all add: c_def block_cipher_def block_size_def)
    have rest_mod: "length (drop 16 data) mod 16 = 0"
      using False "1.prems"(3) by (simp add: mod_diff_eq [symmetric] le_mod_geq)
    have enc: "cbc_encrypt E k prev data = c @ cbc_encrypt E k c (drop 16 data)"
      using False by (simp add: cbc_encrypt_step c_def x_def)
    have ih: "cbc_decrypt D k c (cbc_encrypt E k c (drop 16 data)) = drop 16 data"
      using "1.IH" [OF False c_def [unfolded x_def] "1.prems"(1) lenc rest_mod] .
    have "cbc_decrypt D k prev (c @ cbc_encrypt E k c (drop 16 data)) =
          xor_bytes (D k c) prev @ cbc_decrypt D k c (cbc_encrypt E k c (drop 16 data))"
      using lenc by (subst cbc_decrypt_step) simp_all
    moreover have "xor_bytes x prev = take 16 data"
      unfolding x_def by (rule xor_bytes_cancel) (simp add: "1.prems")
    ultimately show ?thesis by (simp add: enc dec ih)
  qed
qed

lemma length_cbc_encrypt:
  "block_cipher E D \<Longrightarrow> length prev = 16 \<Longrightarrow> length data mod 16 = 0 \<Longrightarrow>
   length (cbc_encrypt E k prev data) = length data"
proof (induction E k prev data rule: cbc_encrypt.induct)
  case (1 E k prev data)
  show ?case
  proof (cases "length data < 16")
    case True
    with "1.prems" have "data = []" by simp
    then show ?thesis by (simp add: cbc_encrypt.simps)
  next
    case False
    define c where "c = E k (xor_bytes (take 16 data) prev)"
    have "length (xor_bytes (take 16 data) prev) = 16"
      using False "1.prems" by (simp add: length_xor_bytes)
    with "1.prems"(1) have lenc: "length c = 16"
      by (simp add: c_def block_cipher_def block_size_def)
    have rest_mod: "length (drop 16 data) mod 16 = 0"
      using False "1.prems"(3) by (simp add: mod_diff_eq [symmetric] le_mod_geq)
    have "length (cbc_encrypt E k c (drop 16 data)) = length (drop 16 data)"
      using "1.IH" [OF False c_def "1.prems"(1) lenc rest_mod] .
    with False lenc show ?thesis by (simp add: cbc_encrypt_step c_def [symmetric])
  qed
qed


lemma unat_pad_byte: "p \<le> 16 \<Longrightarrow> unat (of_nat p :: byte) = p"
  by (simp add: unat_of_nat)

lemma unpadder_finalize_ok:
  assumes "1 \<le> p" "p \<le> 16" "length d = 16 - p"
  shows "unpadder_finalize (d @ replicate p (of_nat p)) = Inr d"
proof -
  have l: "last (d @ replicate p (of_nat p :: byte)) = of_nat p"
    using assms(1) by (cases p) simp_all
  have all: "list_all (\<lambda>x. unat x = p) (replicate p (of_nat p :: byte))"
    using assms(2) by (simp add: list_all_iff unat_pad_byte)
  show ?thesis
    using assms l all by (simp add: unpadder_finalize_def Let_def unat_pad_byte)
qed

lemma unpad_padded:
  assumes "1 \<le> p" "p \<le> 16" "(length data + p) mod 16 = 0"
  shows "(let (buffer, out) = unpadder_update [] (data @ replicate p (of_nat p))
          in case unpadder_finalize buffer of
               Inl e \<Rightarrow> Inl e
             | Inr rest \<Rightarrow> Inr (out @ rest)) = Inr data"
proof -
  define n where "n = length data + p - 16"
  from assms(3) obtain q where q: "length data + p = 16 * q" by (auto simp: mod_eq_0_iff_dvd)
  with assms(1) have q1: "1 \<le> q" by (cases q) auto
  have nq: "((length data + p) div 16 - 1) * 16 = n" using q q1 by (simp add: n_def)
  have n_le: "n \<le> length data" and n_eq: "length data - n = 16 - p"
    using assms(1,2) q q1 by (auto simp: n_def)
  have "unpadder_update [] (data @ replicate p (of_nat p)) =
      (drop n (data @ replicate p (of_nat p)), take n (data @ replicate p (of_nat p)))"
    unfolding unpadder_update_def Let_def append_Nil length_append length_replicate nq ..
  then have upd: "unpadder_update [] (data @ replicate p (of_nat p)) =
      (drop n data @ replicate p (of_nat p), take n data)"
    using n_le by simp
  have fin: "unpadder_finalize (drop n data @ replicate p (of_nat p)) = Inr (drop n data)"
    using assms(1,2) n_eq by (intro unpadder_finalize_ok) simp_all
  show ?thesis by (simp add: upd fin)
qed

lemma pad_size_bounds:
  "1 \<le> 16 - length (data :: bytes) mod 16" "16 - length data mod 16 \<le> 16"
  "(length data + (16 - length data mod 16)) mod 16 = 0"
proof -
  have "length data mod 16 < 16" by simp
  then show "1 \<le> 16 - length data mod 16" by linarith
  show "16 - length data mod 16 \<le> 16" by simp
  show "(length data + (16 - length data mod 16)) mod 16 = 0" by presburger
qed

lemma length_pkcs7_padded: "length (pkcs7_padded data) mod 16 = 0"
  using pad_size_bounds(3) [of data] by (simp add: pkcs7_padded_def)

lemma unpad_pkcs7_padded:
  "(let (buffer, out) = unpadder_update [] (pkcs7_padded data)
    in case unpadder_finalize buffer of
         Inl e \<Rightarrow> Inl e
       | Inr rest \<Rightarrow> Inr (out @ rest)) = Inr data"
  unfolding pkcs7_padded_def using pad_size_bounds [of data] by (intro unpad_padded)

lemma encrypt_data_cbc_ok:
  assumes "block_cipher E D" "length key = 32" "length iv = 16"
  shows "encrypt_data_cbc E iv P key = Inr (cbc_encrypt E key iv (pkcs7_padded P), iv)"
proof -
  have "cbc_encryptor E key iv (pkcs7_padded P) = Inr (cbc_encrypt E key iv (pkcs7_padded P))"
    using assms by (simp add: cbc_encryptor_def cipher_ok_32 length_pkcs7_padded)
  then show ?thesis
    using pad_data [of P] by (simp add: encrypt_data_cbc_def Let_def split: prod.splits)
qed

lemma decrypt_data_cbc_ok:
  assumes "block_cipher E D" "length key = 32" "length iv = 16"
  shows "decrypt_data_cbc D (cbc_encrypt E key iv (pkcs7_padded P)) key iv = Inr P"
proof -
  have m: "length (pkcs7_padded P) mod 16 = 0" by (rule length_pkcs7_padded)
  have "length (cbc_encrypt E key iv (pkcs7_padded P)) = length (pkcs7_padded P)"
    using assms(1,3) m by (rule length_cbc_encrypt)
  then have "cbc_decryptor D key iv (cbc_encrypt E key iv (pkcs7_padded P)) =
      Inr (cbc_decrypt D key iv (cbc_encrypt E key iv (pkcs7_padded P)))"
    using assms m by (simp add: cbc_decryptor_def cipher_ok_32)
  also have "cbc_decrypt D key iv (cbc_encrypt E key iv (pkcs7_padded P)) = pkcs7_padded P"
    using assms(1,3) m by (rule cbc_roundtrip)
  finally have d: "cbc_decryptor D key iv (cbc_encrypt E key iv (pkcs7_padded P)) =
      Inr (pkcs7_padded P)" .
  show ?thesis
    using unpad_pkcs7_padded [of P] by (simp add: decrypt_data_cbc_def d)
qed


lemma demo_block_fn: "block_fn demo_E"
  using demo_block_cipher by (rule block_cipher_fn)

lemma padded_key_eq:
  "length key = 32 \<Longrightarrow> snd (padder_update [] key) @ padder_finalize [] = key @ replicate 16 16"
  by (simp add: padder_update_def padder_finalize_def Let_def)

lemma encrypt_file_ok:
  assumes "is_prf32 f" "block_cipher E D" "length iv = 16" "W \<noteq> []"
  shows "encrypt_file f E (W, True) P salt iv r recovery_salt True =
     Encrypted
       \<lparr>c_salt = salt, c_iv = iv,
        c_encrypted_data = cbc_encrypt E (generate_key_cbc f W salt) iv (pkcs7_padded P),
        c_recovery_salt = recovery_salt,
        c_encrypted_key =
          cbc_encrypt E (generate_key_cbc f (generate_recovery_key r) recovery_salt) iv
            (generate_key_cbc f W salt @ replicate 16 16)\<rparr>
       (generate_recovery_key r)"
proof -
  have k: "length (generate_key_cbc f W salt) = 32"
    and rk: "length (generate_key_cbc f (generate_recovery_key r) recovery_salt) = 32"
    using assms(1) by (simp_all add: length_generate_key_cbc)
  have enc: "encrypt_data_cbc E iv P (generate_key_cbc f W salt) =
      Inr (cbc_encrypt E (generate_key_cbc f W salt) iv (pkcs7_padded P), iv)"
    using assms(2) k assms(3) by (rule encrypt_data_cbc_ok)
  have wrap: "cbc_encryptor E (generate_key_cbc f (generate_recovery_key r) recovery_salt) iv
        (generate_key_cbc f W salt @ replicate 16 16) =
      Inr (cbc_encrypt E (generate_key_cbc f (generate_recovery_key r) recovery_salt) iv
        (generate_key_cbc f W salt @ replicate 16 16))"
    using k rk assms(3) by (simp add: cbc_encryptor_def cipher_ok_32)
  show ?thesis
    using assms(4) by (simp add: encrypt_file_def Let_def enc padded_key_eq [OF k] wrap)
qed

lemma decrypt_file_password_ok:
  assumes "is_prf32 f" "block_cipher E D" "length iv = 16"
  shows "decrypt_file f D
       \<lparr>c_salt = salt, c_iv = iv,
        c_encrypted_data = cbc_encrypt E (generate_key_cbc f W salt) iv (pkcs7_padded P),
        c_recovery_salt = rs, c_encrypted_key = ek\<rparr> Password (W, True) = DecryptedFile P"
proof -
  have k: "length (generate_key_cbc f W salt) = 32"
    using assms(1) by (simp add: length_generate_key_cbc)
  have "decrypt_data_cbc D (cbc_encrypt E (generate_key_cbc f W salt) iv (pkcs7_padded P))
      (generate_key_cbc f W salt) iv = Inr P"
    using assms(2) k assms(3) by (rule decrypt_data_cbc_ok)
  then show ?thesis by (simp add: decrypt_file_def Let_def)
qed

subsection \<open>C1: password round trip\<close>

text \<open>
  C1. For every plaintext \<open>P\<close> and password \<open>W\<close>, opening what was sealed with \<open>W\<close> under
  the same password returns exactly \<open>P\<close>: for \<open>encrypt_data\<close>/\<open>decrypt_data\<close> of durga.py
  and AI.py (CFB), for \<open>encrypt_data\<close>/\<open>decrypt_data\<close> of passward.py (CBC with PKCS7
  padding), and for \<open>encrypt_file\<close> followed by \<open>decrypt_file\<close> with the method
  "Password" (which asks for a non-empty password). The salt and the IV are the 16 bytes
  \<open>os.urandom(16)\<close> returns.
\<close>

theorem password_round_trip:
  assumes "is_prf32 f" and "block_cipher E D" and "length salt = 16" and "length iv = 16"
  shows "(\<exists>c. encrypt_data f E salt iv P W = Inr c \<and> decrypt_data f E c W = Inr P)
    \<and> (\<exists>c. encrypt_data_cbc E iv P (generate_key_cbc f W salt) = Inr (c, iv)
          \<and> decrypt_data_cbc D c (generate_key_cbc f W salt) iv = Inr P)
    \<and> (W \<noteq> [] \<longrightarrow>
         (\<exists>c rk. encrypt_file f E (W, True) P salt iv r recovery_salt True = Encrypted c rk
            \<and> decrypt_file f D c Password (W, True) = DecryptedFile P))"
proof (intro conjI impI)
  from assms(2) have bf: "block_fn E" by (rule block_cipher_fn)
  show "\<exists>c. encrypt_data f E salt iv P W = Inr c \<and> decrypt_data f E c W = Inr P"
    using decrypt_encrypt_data [OF assms(1) bf assms(3,4)] by blast
  have k: "length (generate_key_cbc f W salt) = 32"
    using assms(1) by (simp add: length_generate_key_cbc)
  show "\<exists>c. encrypt_data_cbc E iv P (generate_key_cbc f W salt) = Inr (c, iv)
          \<and> decrypt_data_cbc D c (generate_key_cbc f W salt) iv = Inr P"
    using encrypt_data_cbc_ok [OF assms(2) k assms(4)] decrypt_data_cbc_ok [OF assms(2) k assms(4)]
    by blast
  assume "W \<noteq> []"
  then show "\<exists>c rk. encrypt_file f E (W, True) P salt iv r recovery_salt True = Encrypted c rk
            \<and> decrypt_file f D c Password (W, True) = DecryptedFile P"
    using encrypt_file_ok [OF assms(1,2,4)] decrypt_file_password_ok [OF assms(1,2,4)]
    by blast
qed

theorem password_round_trip_witness:
  "is_prf32 demo_prf \<and> block_cipher demo_E demo_D
   \<and> (\<exists>c. encrypt_data demo_prf demo_E (replicate 16 1) (replicate 16 2)
             (encode ''hello world'') ''correct-horse'' = Inr c
          \<and> decrypt_data demo_prf demo_E c ''correct-horse'' = Inr (encode ''hello world''))
   \<and> (\<exists>c. encrypt_data_cbc demo_E (replicate 16 2) (encode ''hello world'')
             (generate_key_cbc demo_prf ''correct-horse'' (replicate 16 1)) = Inr (c, replicate 16 2)
          \<and> decrypt_data_cbc demo_D c
             (generate_key_cbc demo_prf ''correct-horse'' (replicate 16 1)) (replicate 16 2)
             = Inr (encode ''hello world''))
   \<and> (\<exists>c rk. encrypt_file demo_prf demo_E (''correct-horse'', True) (encode ''hello world'')
               (replicate 16 1) (replicate 16 2) (replicate 16 3) (replicate 16 4) True
             = Encrypted c rk
          \<and> decrypt_file demo_prf demo_D c Password (''correct-horse'', True)
             = DecryptedFile (encode ''hello world''))"
proof -
  have l1: "length (replicate 16 (1::byte)) = 16" and l2: "length (replicate 16 (2::byte)) = 16"
    by simp_all
  have ne: "''correct-horse'' \<noteq> []" by simp
  show ?thesis
    using password_round_trip [OF demo_prf_ok demo_block_cipher l1 l2,
        of "encode ''hello world''" "''correct-horse''" "replicate 16 3" "replicate 16 4"]
      demo_prf_ok demo_block_cipher ne
    by blast
qed

subsection \<open>C7: key derivation is deterministic and gives 32 bytes\<close>

text \<open>
  C7. \<open>generate_key\<close> (in both variants) takes no random draw: it is a function of the
  password and the salt alone, so two calls on the same password and salt return the same
  key; with the 32-byte pseudorandom function HMAC-SHA256 the key has exactly 32 bytes,
  for every password and every salt (16 bytes long or not).
\<close>

theorem generate_key_deterministic_32:
  assumes "is_prf32 f"
  shows "length (generate_key f password salt) = 32
    \<and> length (generate_key_cbc f password salt) = 32
    \<and> (\<forall>password' salt'. password' = password \<and> salt' = salt \<longrightarrow>
          generate_key f password' salt' = generate_key f password salt
          \<and> generate_key_cbc f password' salt' = generate_key_cbc f password salt)"
  using assms by (simp add: length_generate_key length_generate_key_cbc)

theorem generate_key_deterministic_32_witness:
  "is_prf32 demo_prf
   \<and> length (generate_key demo_prf ''correct-horse'' (replicate 16 7)) = 32
   \<and> length (generate_key_cbc demo_prf ''correct-horse'' (replicate 16 7)) = 32"
  using generate_key_deterministic_32 [OF demo_prf_ok, of "''correct-horse''" "replicate 16 7"]
    demo_prf_ok
  by blast

subsection \<open>C10: CFB decrypt\_data is total on inputs of at least 32 bytes\<close>

text \<open>
  C10. In the CFB variants, for every password (correct or not) and every input of at
  least 32 bytes, \<open>decrypt_data\<close> returns a byte string and raises nothing: a wrong key is
  not detected here. The result has the length of the input without its 32 bytes of salt
  and IV.
\<close>

theorem decrypt_data_total:
  assumes "is_prf32 f" and "block_fn E" and "32 \<le> length encrypted_data"
  shows "\<exists>out. decrypt_data f E encrypted_data password = Inr out
           \<and> length out = length encrypted_data - 32"
proof -
  have iv: "length (take 16 (drop 16 encrypted_data)) = 16" using assms(3) by simp
  have "cipher_ok (generate_key f password (take 16 encrypted_data)) (take 16 (drop 16 encrypted_data))"
    using assms(1) iv by (intro cipher_ok_32) (simp_all add: length_generate_key)
  then have "decrypt_data f E encrypted_data password =
      Inr (cfb_decrypt E (generate_key f password (take 16 encrypted_data))
             (take 16 (drop 16 encrypted_data)) (drop 32 encrypted_data))"
    by (simp add: decrypt_data_def Let_def)
  moreover have "length (cfb_decrypt E (generate_key f password (take 16 encrypted_data))
             (take 16 (drop 16 encrypted_data)) (drop 32 encrypted_data)) = length encrypted_data - 32"
    using assms(2) iv by (simp add: length_cfb_decrypt)
  ultimately show ?thesis by simp
qed

theorem decrypt_data_total_witness:
  "is_prf32 demo_prf \<and> block_fn demo_E \<and> 32 \<le> length (replicate 40 (0::byte))
   \<and> (\<exists>out. decrypt_data demo_prf demo_E (replicate 40 0) ''wrong'' = Inr out \<and> length out = 8)"
proof -
  have l: "32 \<le> length (replicate 40 (0::byte))" by simp
  show ?thesis
    using decrypt_data_total [OF demo_prf_ok demo_block_fn l, of "''wrong''"]
      demo_prf_ok demo_block_fn
    by simp
qed

lemma replicate_16: "replicate 16 x = [x, x, x, x, x, x, x, x, x, x, x, x, x, x, x, x]"
  by (simp add: numeral_eq_Suc)

lemma unpadder_finalize_fresh: "unpadder_finalize [] = Inl ValueError"
  by (simp add: unpadder_finalize_def)

lemma decrypt_file_recovery_fails:
  "decrypt_file f D content RecoveryKey (secret, True) = InvalidRecovery"
  by (simp add: decrypt_file_def Let_def unpadder_finalize_fresh split: sum.splits)

lemma open_never_recovers:
  "open_encrypted_file f E loads st file ans \<noteq> RecoverySuccessful st'"
  by (auto simp add: open_encrypted_file_def Let_def split: sum.splits prod.splits if_splits)

subsection \<open>C2: the recovery path never returns the plaintext\<close>

text \<open>
  C2 asks that opening a sealed container with the recovery secret of the same seal
  returns the plaintext. Neither variant does. In passward.py the recovery branch of
  \<open>decrypt_file\<close> calls \<open>finalize()\<close> on a fresh unpadder, whose buffer is empty, so it
  raises \<open>ValueError\<close> for every container and every recovery key and the branch always
  reports "Invalid recovery key or file corrupted.". In durga.py the recovery branch of
  \<open>open_encrypted_file\<close> decrypts again with the password that has just failed, so it
  raises the same exception again and never reaches "Recovery successful".
\<close>

theorem recovery_round_trip_fails:
  "decrypt_file f D content RecoveryKey (secret, True) = InvalidRecovery
   \<and> open_encrypted_file f E loads st file ans \<noteq> RecoverySuccessful st'"
  using decrypt_file_recovery_fails open_never_recovers by blast

theorem recovery_round_trip_fails_example:
  "encrypt_file demo_prf demo_E (''correct-horse'', True) (encode ''hello world'')
       (replicate 16 1) (replicate 16 2) (replicate 16 3) (replicate 16 4) True
     = Encrypted
       \<lparr>c_salt = replicate 16 1, c_iv = replicate 16 2,
        c_encrypted_data =
          cbc_encrypt demo_E (generate_key_cbc demo_prf ''correct-horse'' (replicate 16 1))
            (replicate 16 2) (pkcs7_padded (encode ''hello world'')),
        c_recovery_salt = replicate 16 4,
        c_encrypted_key =
          cbc_encrypt demo_E
            (generate_key_cbc demo_prf (generate_recovery_key (replicate 16 3)) (replicate 16 4))
            (replicate 16 2)
            (generate_key_cbc demo_prf ''correct-horse'' (replicate 16 1) @ replicate 16 16)\<rparr>
       (generate_recovery_key (replicate 16 3))
   \<and> generate_recovery_key (replicate 16 3) = ''AwMDAwMDAwMDAwMDAwMDAw==''
   \<and> decrypt_file demo_prf demo_D
       \<lparr>c_salt = replicate 16 1, c_iv = replicate 16 2,
        c_encrypted_data =
          cbc_encrypt demo_E (generate_key_cbc demo_prf ''correct-horse'' (replicate 16 1))
            (replicate 16 2) (pkcs7_padded (encode ''hello world'')),
        c_recovery_salt = replicate 16 4,
        c_encrypted_key =
          cbc_encrypt demo_E
            (generate_key_cbc demo_prf (generate_recovery_key (replicate 16 3)) (replicate 16 4))
            (replicate 16 2)
            (generate_key_cbc demo_prf ''correct-horse'' (replicate 16 1) @ replicate 16 16)\<rparr>
       RecoveryKey (generate_recovery_key (replicate 16 3), True) = InvalidRecovery"
proof (intro conjI)
  have l2: "length (replicate 16 (2::byte)) = 16" by simp
  have ne: "''correct-horse'' \<noteq> []" by simp
  show "encrypt_file demo_prf demo_E (''correct-horse'', True) (encode ''hello world'')
       (replicate 16 1) (replicate 16 2) (replicate 16 3) (replicate 16 4) True
     = Encrypted
       \<lparr>c_salt = replicate 16 1, c_iv = replicate 16 2,
        c_encrypted_data =
          cbc_encrypt demo_E (generate_key_cbc demo_prf ''correct-horse'' (replicate 16 1))
            (replicate 16 2) (pkcs7_padded (encode ''hello world'')),
        c_recovery_salt = replicate 16 4,
        c_encrypted_key =
          cbc_encrypt demo_E
            (generate_key_cbc demo_prf (generate_recovery_key (replicate 16 3)) (replicate 16 4))
            (replicate 16 2)
            (generate_key_cbc demo_prf ''correct-horse'' (replicate 16 1) @ replicate 16 16)\<rparr>
       (generate_recovery_key (replicate 16 3))"
    by (rule encrypt_file_ok [OF demo_prf_ok demo_block_cipher l2 ne])
  show "generate_recovery_key (replicate 16 3) = ''AwMDAwMDAwMDAwMDAwMDAw==''"
    by (simp add: generate_recovery_key_def urlsafe_alphabet_def replicate_16)
  show "decrypt_file demo_prf demo_D
       \<lparr>c_salt = replicate 16 1, c_iv = replicate 16 2,
        c_encrypted_data =
          cbc_encrypt demo_E (generate_key_cbc demo_prf ''correct-horse'' (replicate 16 1))
            (replicate 16 2) (pkcs7_padded (encode ''hello world'')),
        c_recovery_salt = replicate 16 4,
        c_encrypted_key =
          cbc_encrypt demo_E
            (generate_key_cbc demo_prf (generate_recovery_key (replicate 16 3)) (replicate 16 4))
            (replicate 16 2)
            (generate_key_cbc demo_prf ''correct-horse'' (replicate 16 1) @ replicate 16 16)\<rparr>
       RecoveryKey (generate_recovery_key (replicate 16 3), True) = InvalidRecovery"
    using recovery_round_trip_fails by blast
qed

lemma wrapped_key_unwraps:
  assumes "is_prf32 f" "block_cipher E D" "length iv = 16"
  shows "cbc_decrypt D (generate_key_cbc f rk rs) iv
           (cbc_encrypt E (generate_key_cbc f rk rs) iv (generate_key_cbc f W salt @ replicate 16 16))
         = generate_key_cbc f W salt @ replicate 16 16"
  using assms(2,3) by (rule cbc_roundtrip) (simp add: length_generate_key_cbc [OF assms(1)])

subsection \<open>C6: the escrow step wraps the content key under the content IV\<close>

text \<open>
  C6, as amended. In \<open>encrypt_file\<close> the recovery key is derived by \<open>generate_key\<close> from
  the recovery key string and a recovery salt drawn separately from the content-key salt,
  and the 32-byte content key, followed by one block of padding, is encrypted under that
  recovery key in CBC mode with the IV of the content ciphertext: no IV is drawn or
  stored for the wrap, and decrypting the wrapped key with the container's one IV gives
  the padded content key back.
\<close>

theorem wrap_uses_content_iv:
  assumes "is_prf32 f" and "block_cipher E D" and "length iv = 16" and "W \<noteq> []"
  shows "\<exists>c. encrypt_file f E (W, True) P salt iv r recovery_salt True
              = Encrypted c (generate_recovery_key r)
          \<and> c_salt c = salt \<and> c_recovery_salt c = recovery_salt \<and> c_iv c = iv
          \<and> c_encrypted_key c =
              cbc_encrypt E (generate_key_cbc f (generate_recovery_key r) (c_recovery_salt c))
                (c_iv c) (generate_key_cbc f W salt @ replicate 16 16)
          \<and> cbc_decrypt D (generate_key_cbc f (generate_recovery_key r) (c_recovery_salt c))
                (c_iv c) (c_encrypted_key c)
              = generate_key_cbc f W salt @ replicate 16 16"
  using encrypt_file_ok [OF assms, of P salt r recovery_salt] wrapped_key_unwraps [OF assms(1,2,3)]
  by simp

theorem wrap_uses_content_iv_witness:
  "is_prf32 demo_prf \<and> block_cipher demo_E demo_D
   \<and> (\<exists>c. example_seal = Encrypted c (generate_recovery_key (replicate 16 3))
          \<and> c_salt c = replicate 16 1 \<and> c_recovery_salt c = replicate 16 4
          \<and> c_iv c = replicate 16 2
          \<and> cbc_decrypt demo_D
               (generate_key_cbc demo_prf (generate_recovery_key (replicate 16 3)) (replicate 16 4))
               (replicate 16 2) (c_encrypted_key c)
             = generate_key_cbc demo_prf ''correct-horse'' (replicate 16 1) @ replicate 16 16)"
proof -
  have l2: "length (replicate 16 (2::byte)) = 16" by simp
  have ne: "''correct-horse'' \<noteq> []" by simp
  show ?thesis
    unfolding example_seal_def
    using wrap_uses_content_iv [OF demo_prf_ok demo_block_cipher l2 ne,
        of "encode ''hello world''" "replicate 16 1" "replicate 16 3" "replicate 16 4"]
      demo_prf_ok demo_block_cipher
    by auto
qed

text \<open>
  The claim as stated (a fresh IV for the wrap, distinct from the content IV) fails at the
  running example: the container's IV is sixteen bytes 2, and the first block of the
  wrapped key is the encryption of the first key block XOR those same sixteen bytes.
\<close>

theorem wrap_iv_is_content_iv_example:
  "map_option c_iv (sealed example_seal) = Some (replicate 16 2)
   \<and> map_option (\<lambda>c. take 16 (c_encrypted_key c)) (sealed example_seal) =
       Some (demo_E
         (generate_key_cbc demo_prf (generate_recovery_key (replicate 16 3)) (replicate 16 4))
         (xor_bytes (take 16 (generate_key_cbc demo_prf ''correct-horse'' (replicate 16 1)))
            (replicate 16 2)))"
proof -
  have l2: "length (replicate 16 (2::byte)) = 16" by simp
  have ne: "''correct-horse'' \<noteq> []" by simp
  have k: "length (generate_key_cbc demo_prf ''correct-horse'' (replicate 16 1)) = 32"
    using demo_prf_ok by (rule length_generate_key_cbc)
  define key where "key = generate_key_cbc demo_prf ''correct-horse'' (replicate 16 1)"
  define rkb where
    "rkb = generate_key_cbc demo_prf (generate_recovery_key (replicate 16 3)) (replicate 16 4)"
  have lx: "length (xor_bytes (take 16 key) (replicate 16 2)) = 16"
    using k by (simp add: length_xor_bytes key_def)
  then have le: "length (demo_E rkb (xor_bytes (take 16 key) (replicate 16 2))) = 16"
    using demo_block_fn by (simp add: block_fn_def block_size_def)
  have "take 16 (cbc_encrypt demo_E rkb (replicate 16 2) (key @ replicate 16 16)) =
      demo_E rkb (xor_bytes (take 16 key) (replicate 16 2))"
    using k le by (subst cbc_encrypt_step) (simp_all add: key_def [symmetric])
  then show ?thesis
    unfolding example_seal_def
    by (simp add: encrypt_file_ok [OF demo_prf_ok demo_block_cipher l2 ne] sealed_def
        key_def rkb_def)
qed

lemma utf8_decode_ascii: "\<forall>b\<in>set bs. b < 128 \<Longrightarrow> utf8_decode bs = Some bs"
  by (induction bs) simp_all

lemma chars_of_encode: "map (\<lambda>b. char_of (unat b)) (encode s) = s"
proof -
  have "char_of (unat (of_nat (of_char c) :: byte)) = c" for c :: char
  proof -
    have "(of_char c :: nat) < 256" by simp
    then have "unat (of_nat (of_char c) :: byte) = of_char c"
      by (simp add: unat_of_nat)
    then show ?thesis by simp
  qed
  then show ?thesis by (simp add: encode_def o_def map_idI)
qed

lemma unat_encode: "map unat (encode s) = map of_char s"
proof -
  have "unat (of_nat (of_char c) :: byte) = of_char c" for c :: char
  proof -
    have "(of_char c :: nat) < 256" by simp
    then show ?thesis by (simp add: unat_of_nat)
  qed
  then show ?thesis by (simp add: encode_def)
qed

lemma decode_encode_ascii:
  "\<forall>c\<in>set s. (of_char c :: nat) < 128 \<Longrightarrow> decode (encode s) = Inr s"
  by (simp add: decode_def unat_encode utf8_decode_ascii chars_of_encode)

lemma codepoints_ascii:
  "\<forall>c\<in>set s. (of_char c :: nat) < 128 \<Longrightarrow> codepoints s = map of_char s"
  by (simp add: codepoints_def utf8_decode_ascii)

lemma json_escape_plain: "plain c \<Longrightarrow> json_escape_cp (of_char c) = [c]"
  by (simp add: json_escape_cp_def plain_def)

lemma json_dumps_str_plain:
  assumes "\<forall>c\<in>set s. plain c"
  shows "json_dumps_str s = [CHR 0x22] @ s @ [CHR 0x22]"
proof -
  from assms have "\<forall>c\<in>set s. (of_char c :: nat) < 128" by (auto simp: plain_def)
  then have cp: "codepoints s = map of_char s" by (rule codepoints_ascii)
  from assms have "concat (map json_escape_cp (map of_char s)) = s"
    by (induction s) (simp_all add: json_escape_plain)
  then show ?thesis by (simp add: json_dumps_str_def cp)
qed

lemma nth_list_all: "m < length xs \<Longrightarrow> list_all P xs \<Longrightarrow> P (xs ! m)"
  by (simp add: list_all_length)

lemma hexdigit_plain: "plain (hexdigit n)"
  unfolding hexdigit_def
  by (rule nth_list_all) (simp_all add: plain_def)

lemma token_hex_plain: "\<forall>c\<in>set (token_hex r). plain c"
  by (auto simp: token_hex_def hex_byte_def hexdigit_plain)

lemma length_token_hex: "length (token_hex r) = 2 * length r"
  by (induction r) (simp_all add: token_hex_def hex_byte_def)

lemma json_dumps_str_key: "json_dumps_str ''recovery_key'' = [CHR 0x22] @ ''recovery_key'' @ [CHR 0x22]"
  by (rule json_dumps_str_plain) (simp add: plain_def)

lemma json_dumps_str_created: "json_dumps_str ''created_at'' = [CHR 0x22] @ ''created_at'' @ [CHR 0x22]"
  by (rule json_dumps_str_plain) (simp add: plain_def)

lemma header_text:
  \<open>\<forall>c\<in>set k. plain c \<Longrightarrow>
   json_dumps (JObj [(''recovery_key'', JStr k), (''created_at'', JNum t)]) =
     ''{"recovery_key": "'' @ k @ ''", "created_at": '' @ t @ ''}''\<close>
  by (simp add: json_dumps_str_key json_dumps_str_created json_dumps_str_plain)

lemma int_from_bytes_int32be:
  assumes "n < 4294967296"
  shows "int_from_bytes (int32be n) = n"
proof -
  define q1 where "q1 = n div 256"
  define q2 where "q2 = q1 div 256"
  define q3 where "q3 = q2 div 256"
  have d2: "n div 65536 = q2" by (simp add: q2_def q1_def div_mult2_eq)
  have d3: "n div 16777216 = q3" by (simp add: q3_def q2_def q1_def div_mult2_eq)
  have "n < 256 * 16777216" using assms by simp
  then have "n div 16777216 < 256" by (rule less_mult_imp_div_less)
  then have small: "q3 mod 256 = q3" by (simp add: d3)
  have u: "unat (of_nat m :: byte) = m mod 256" for m by (simp add: unat_of_nat)
  have "int_from_bytes (int32be n) =
      ((q3 mod 256 * 256 + q2 mod 256) * 256 + q1 mod 256) * 256 + n mod 256"
    unfolding int_from_bytes_def int32be_def d2 d3 q1_def [symmetric]
    by (simp add: u)
  also have "\<dots> = ((q3 * 256 + q2 mod 256) * 256 + q1 mod 256) * 256 + n mod 256"
    by (simp only: small)
  also have "q3 * 256 + q2 mod 256 = q2" by (simp add: q3_def)
  also have "q2 * 256 + q1 mod 256 = q1" by (simp add: q2_def)
  also have "q1 * 256 + n mod 256 = n" by (simp add: q1_def)
  finally show ?thesis .
qed

lemma json_dumps_header:
  "\<forall>c\<in>set k. plain c \<Longrightarrow>
   json_dumps (JObj [(''recovery_key'', JStr k), (''created_at'', JNum t)]) = header_of k t"
  unfolding header_of_def by (rule header_text)

lemma length_header_of: "length (header_of k t) = 36 + length k + length t"
  by (simp add: header_of_def)

lemma length_encode: "length (encode s) = length s"
  by (simp add: encode_def)

lemma plain_ascii: "plain c \<Longrightarrow> (of_char c :: nat) < 128"
  by (simp add: plain_def)

lemma save_encrypted_file_hex:
  assumes "is_prf32 f" and "length iv = 16" and "W \<noteq> []" and "length r = 16"
    and "length created_at < 1000"
  shows "save_encrypted_file f E (set_password st (W, True) r) True created_at salt iv =
     Saved (int32be (68 + length created_at)
            @ encode (header_of (token_hex r) created_at)
            @ salt @ iv @ cfb_encrypt E (generate_key f W salt) iv (encode (text_edit st)))"
proof -
  have enc: "encrypt_data f E salt iv (encode (text_edit st)) W =
      Inr (salt @ iv @ cfb_encrypt E (generate_key f W salt) iv (encode (text_edit st)))"
    using assms(1,2) by (simp add: encrypt_data_def Let_def cipher_ok_32 length_generate_key)
  have hdr: "json_dumps (JObj [(''recovery_key'', JStr (token_hex r)), (''created_at'', JNum created_at)])
      = header_of (token_hex r) created_at"
    using token_hex_plain by (rule json_dumps_header)
  have len: "length (encode (header_of (token_hex r) created_at)) = 68 + length created_at"
    using assms(4) by (simp add: length_encode length_header_of length_token_hex)
  show ?thesis
    using assms(3,5)
    by (simp add: save_encrypted_file_def set_password_def enc hdr len Let_def del: json_dumps.simps)
qed

subsection \<open>C8: the editor object keeps the password between calls\<close>

text \<open>
  C8, as amended. \<open>generate_key\<close>, \<open>encrypt_data\<close> and \<open>decrypt_data\<close> are functions of
  their arguments (and their random draws), but the editor of durga.py (and of AI.py)
  keeps credential material on the long-lived object: \<open>set_password\<close> stores the password
  and the recovery key, a later \<open>save_encrypted_file\<close> reads the stored password (the
  file it writes decrypts under it, and without a stored password it refuses), and a
  successful \<open>open_encrypted_file\<close> stores the password it was given.
\<close>

theorem editor_keeps_credentials:
  assumes "is_prf32 f" and "block_fn E" and "length salt = 16" and "length iv = 16"
    and "W \<noteq> []" and "length r = 16" and "length created_at < 1000"
  shows "current_password (set_password st (W, True) r) = Some W
    \<and> recovery_key (set_password st (W, True) r) = JStr (token_hex r)
    \<and> (\<exists>hdr enc. save_encrypted_file f E (set_password st (W, True) r) True created_at salt iv
                     = Saved (hdr @ enc)
          \<and> decrypt_data f E enc W = Inr (encode (text_edit st)))
    \<and> save_encrypted_file f E (st\<lparr>current_password := None\<rparr>) True created_at salt iv
        = PasswordError
    \<and> (\<forall>st'. open_encrypted_file f E loads st file ans = Decrypted st' \<longrightarrow>
          current_password st' = Some (fst (a_password ans)))"
proof (intro conjI allI impI)
  show "current_password (set_password st (W, True) r) = Some W"
    using assms(5) by (simp add: set_password_def)
  show "recovery_key (set_password st (W, True) r) = JStr (token_hex r)"
    using assms(5) by (simp add: set_password_def)
  have "decrypt_data f E (salt @ iv @ cfb_encrypt E (generate_key f W salt) iv (encode (text_edit st))) W
      = Inr (encode (text_edit st))"
    using assms(1,2,3,4) by (rule decrypt_encrypt_data(2))
  then show "\<exists>hdr enc. save_encrypted_file f E (set_password st (W, True) r) True created_at salt iv
                     = Saved (hdr @ enc)
          \<and> decrypt_data f E enc W = Inr (encode (text_edit st))"
    using save_encrypted_file_hex [OF assms(1,4,5,6,7), of E st salt]
    by (metis append.assoc)
  show "save_encrypted_file f E (st\<lparr>current_password := None\<rparr>) True created_at salt iv
        = PasswordError"
    by (simp add: save_encrypted_file_def)
next
  fix st'
  assume "open_encrypted_file f E loads st file ans = Decrypted st'"
  then show "current_password st' = Some (fst (a_password ans))"
    by (auto simp add: open_encrypted_file_def Let_def split: sum.splits prod.splits if_splits)
qed


lemma token_hex_example: "token_hex (replicate 16 171) = ''abababababababababababababababab''"
  by (simp add: token_hex_def hex_byte_def hexdigit_def replicate_16)

theorem editor_keeps_credentials_witness:
  "is_prf32 demo_prf \<and> block_fn demo_E
   \<and> current_password (set_password example_editor (''correct-horse'', True) (replicate 16 171))
       = Some ''correct-horse''
   \<and> (\<exists>hdr enc. save_encrypted_file demo_prf demo_E
                     (set_password example_editor (''correct-horse'', True) (replicate 16 171))
                     True ''1700000000.0'' (replicate 16 1) (replicate 16 2) = Saved (hdr @ enc)
          \<and> decrypt_data demo_prf demo_E enc ''correct-horse'' = Inr (encode ''hello world''))"
proof -
  have l1: "length (replicate 16 (1::byte)) = 16" and l2: "length (replicate 16 (2::byte)) = 16"
    and lr: "length (replicate 16 (171::byte)) = 16" by simp_all
  have ne: "''correct-horse'' \<noteq> []" and lt: "length ''1700000000.0'' < 1000" by simp_all
  have t: "text_edit example_editor = ''hello world''" by (simp add: example_editor_def)
  show ?thesis
    using editor_keeps_credentials [OF demo_prf_ok demo_block_fn l1 l2 ne lr lt, of example_editor]
      demo_prf_ok demo_block_fn
    unfolding t by blast
qed

text \<open>
  The claim as stated fails: two calls of \<open>save_encrypted_file\<close> with the same explicit
  inputs differ in their result, by the password an earlier \<open>set_password\<close> left on the
  editor object.
\<close>

theorem save_depends_on_stored_password_example:
  "save_encrypted_file demo_prf demo_E example_editor True ''1700000000.0''
       (replicate 16 1) (replicate 16 2) = PasswordError
   \<and> save_encrypted_file demo_prf demo_E
       (set_password example_editor (''correct-horse'', True) (replicate 16 171))
       True ''1700000000.0'' (replicate 16 1) (replicate 16 2)
     = Saved (int32be 80 @ encode (header_of ''abababababababababababababababab'' ''1700000000.0'')
              @ replicate 16 1 @ replicate 16 2
              @ cfb_encrypt demo_E (generate_key demo_prf ''correct-horse'' (replicate 16 1))
                  (replicate 16 2) (encode ''hello world''))"
proof -
  have l2: "length (replicate 16 (2::byte)) = 16"
    and lr: "length (replicate 16 (171::byte)) = 16" by simp_all
  have ne: "''correct-horse'' \<noteq> []" and lt: "length ''1700000000.0'' < 1000" by simp_all
  have t: "text_edit example_editor = ''hello world''" by (simp add: example_editor_def)
  have "save_encrypted_file demo_prf demo_E example_editor True ''1700000000.0''
       (replicate 16 1) (replicate 16 2) = PasswordError"
    by (simp add: save_encrypted_file_def example_editor_def)
  moreover have "68 + length ''1700000000.0'' = 80" by simp
  ultimately show ?thesis
    using save_encrypted_file_hex [OF demo_prf_ok l2 ne lr lt, of demo_E example_editor "replicate 16 1"]
    unfolding t token_hex_example by (simp only:)
qed

lemma saved_contains_key:
  assumes "is_prf32 f" and "length iv = 16" and "W \<noteq> []" and "length r = 16"
    and "length created_at < 1000"
  shows "\<exists>file. save_encrypted_file f E (set_password st (W, True) r) True created_at salt iv
               = Saved file
           \<and> sublist (encode (token_hex r)) file"
proof -
  have "encode (header_of (token_hex r) created_at) =
      encode ''{\"recovery_key\": \"'' @ encode (token_hex r)
      @ encode (''\", \"created_at\": '' @ created_at @ ''}'')"
    by (simp add: header_of_def encode_def)
  then have "sublist (encode (token_hex r))
      (int32be (68 + length created_at) @ encode (header_of (token_hex r) created_at)
       @ salt @ iv @ cfb_encrypt E (generate_key f W salt) iv (encode (text_edit st)))"
    unfolding sublist_def
    by (metis append.assoc)
  then show ?thesis
    using save_encrypted_file_hex [OF assms, of E st salt] by simp
qed

subsection \<open>C3: where the recovery secret is persisted\<close>

text \<open>
  C3, as amended. In durga.py the recovery key that \<open>set_password\<close> generated is written
  into the file as it is, inside the plaintext recovery information of
  \<open>save_encrypted_file\<close>. In passward.py \<open>encrypt_file\<close> returns the recovery key to the
  caller and writes a container of five fields (content salt, IV, content ciphertext,
  recovery salt, wrapped content key); the recovery key is not one of them and enters the
  container only as the key under which the content key is wrapped.
\<close>

theorem recovery_secret_persistence:
  assumes "is_prf32 f" and "block_cipher E D" and "length iv = 16" and "W \<noteq> []"
    and "length r = 16" and "length created_at < 1000"
  shows "(\<exists>file. save_encrypted_file f E (set_password st (W, True) r) True created_at salt iv
                 = Saved file
            \<and> sublist (encode (token_hex r)) file)
    \<and> encrypt_file f E (W, True) P salt iv r recovery_salt True =
        Encrypted
          \<lparr>c_salt = salt, c_iv = iv,
           c_encrypted_data = cbc_encrypt E (generate_key_cbc f W salt) iv (pkcs7_padded P),
           c_recovery_salt = recovery_salt,
           c_encrypted_key =
             cbc_encrypt E (generate_key_cbc f (generate_recovery_key r) recovery_salt) iv
               (generate_key_cbc f W salt @ replicate 16 16)\<rparr>
          (generate_recovery_key r)"
  using saved_contains_key [OF assms(1,3,4,5,6)] encrypt_file_ok [OF assms(1,2,3,4)]
  by blast

theorem recovery_secret_persistence_witness:
  "is_prf32 demo_prf \<and> block_cipher demo_E demo_D
   \<and> (\<exists>file. save_encrypted_file demo_prf demo_E
                 (set_password example_editor (''correct-horse'', True) (replicate 16 171))
                 True ''1700000000.0'' (replicate 16 1) (replicate 16 2) = Saved file
          \<and> sublist (encode (token_hex (replicate 16 171))) file)
   \<and> (\<exists>c. example_seal = Encrypted c (generate_recovery_key (replicate 16 3)))"
proof -
  have l2: "length (replicate 16 (2::byte)) = 16"
    and lr: "length (replicate 16 (171::byte)) = 16"
    and l3: "length (replicate 16 (3::byte)) = 16" by simp_all
  have ne: "''correct-horse'' \<noteq> []" and lt: "length ''1700000000.0'' < 1000" by simp_all
  have a: "\<exists>file. save_encrypted_file demo_prf demo_E
                 (set_password example_editor (''correct-horse'', True) (replicate 16 171))
                 True ''1700000000.0'' (replicate 16 1) (replicate 16 2) = Saved file
          \<and> sublist (encode (token_hex (replicate 16 171))) file"
    using recovery_secret_persistence [OF demo_prf_ok demo_block_cipher l2 ne lr lt] by blast
  have b: "\<exists>c. example_seal = Encrypted c (generate_recovery_key (replicate 16 3))"
    unfolding example_seal_def
    using recovery_secret_persistence [OF demo_prf_ok demo_block_cipher l2 ne l3 lt] by blast
  show ?thesis using a b demo_prf_ok demo_block_cipher by blast
qed

text \<open>
  The claim as stated (the recovery secret occurs nowhere in the container bytes) fails
  for durga.py at the running example: the 32 characters of the recovery key stand in the
  file that \<open>save_encrypted_file\<close> writes.
\<close>

theorem recovery_key_in_saved_file_example:
  "token_hex (replicate 16 171) = ''abababababababababababababababab''
   \<and> sublist (encode ''abababababababababababababababab'')
       (saved_bytes
          (save_encrypted_file demo_prf demo_E
             (set_password example_editor (''correct-horse'', True) (replicate 16 171))
             True ''1700000000.0'' (replicate 16 1) (replicate 16 2)))"
proof -
  have l2: "length (replicate 16 (2::byte)) = 16"
    and lr: "length (replicate 16 (171::byte)) = 16" by simp_all
  have ne: "''correct-horse'' \<noteq> []" and lt: "length ''1700000000.0'' < 1000" by simp_all
  from saved_contains_key [OF demo_prf_ok l2 ne lr lt, of demo_E example_editor "replicate 16 1"]
  obtain bs where "save_encrypted_file demo_prf demo_E
             (set_password example_editor (''correct-horse'', True) (replicate 16 171))
             True ''1700000000.0'' (replicate 16 1) (replicate 16 2) = Saved bs"
    and "sublist (encode (token_hex (replicate 16 171))) bs" by blast
  then show ?thesis
    unfolding token_hex_example by (simp add: saved_bytes_def token_hex_example)
qed

lemma length_int32be: "length (int32be n) = 4"
  by (simp add: int32be_def)

lemma read_header_framed:
  assumes "length info < 4294967296" and "decode info = Inr header"
    and "loads header = Inr data" and "json_get data ''recovery_key'' = Inr stored"
  shows "read_header loads (int32be (length info) @ info @ enc) = Inr (stored, enc)"
proof -
  have "take 4 (int32be (length info) @ info @ enc) = int32be (length info)"
    by (simp add: length_int32be)
  then have n: "int_from_bytes (take 4 (int32be (length info) @ info @ enc)) = length info"
    using assms(1) by (simp add: int_from_bytes_int32be)
  have d: "drop 4 (int32be (length info) @ info @ enc) = info @ enc"
    by (simp add: length_int32be)
  show ?thesis
    unfolding read_header_def Let_def n d using assms(2,3,4) by simp
qed

lemma header_of_ascii:
  "\<forall>c\<in>set k. plain c \<Longrightarrow> \<forall>c\<in>set t. plain c \<Longrightarrow>
   \<forall>c\<in>set (header_of k t). (of_char c :: nat) < 128"
  by (auto simp add: header_of_def plain_def)

lemma read_header_of:
  assumes "\<forall>c\<in>set k. plain c" and "\<forall>c\<in>set t. plain c"
    and "length k + length t < 1000"
    and "loads (header_of k t) = Inr (JObj [(''recovery_key'', JStr k), (''created_at'', JNum t)])"
  shows "read_header loads (int32be (36 + length k + length t) @ encode (header_of k t) @ enc)
         = Inr (JStr k, enc)"
proof -
  have len: "length (encode (header_of k t)) = 36 + length k + length t"
    by (simp add: length_encode length_header_of)
  have dec: "decode (encode (header_of k t)) = Inr (header_of k t)"
    using assms(1,2) by (intro decode_encode_ascii header_of_ascii)
  have get: "json_get (JObj [(''recovery_key'', JStr k), (''created_at'', JNum t)]) ''recovery_key''
      = Inr (JStr k)"
    by (simp add: json_get_def)
  have "length (encode (header_of k t)) < 4294967296" using assms(3) by (simp add: len)
  from read_header_framed [where loads = loads and enc = enc, OF this dec assms(4) get] show ?thesis
    by (simp only: len)
qed

lemma decrypt_text_short: "length encrypted_data < 32 \<Longrightarrow> decrypt_text f E encrypted_data W = Inl ValueError"
  by (auto simp add: decrypt_text_def decrypt_data_def Let_def cipher_ok_def block_size_def)

subsection \<open>C9: which recovery key durga.py accepts\<close>

text \<open>
  C9, as amended. In durga.py, once the password attempt has failed and the user asks
  for recovery, the candidate recovery key is accepted if and only if the dialog was
  confirmed, the candidate is not empty, and it is string-equal to the \<open>recovery_key\<close>
  entry read from the plaintext header. No key derivation or decryption takes part in
  the decision (the condition mentions neither the pseudorandom function nor the
  cipher), so the header alone determines the accepted key; a header that stores the
  empty string or a value that is not a string accepts no candidate. Every other outcome
  than "Invalid recovery key." means the candidate was accepted.
\<close>

theorem recovery_accepted_iff:
  assumes "read_header loads file = Inr (stored, encrypted_data)"
    and "a_password ans = (password, True)" and "password \<noteq> []"
    and "decrypt_text f E encrypted_data password = Inl e"
    and "a_use_recovery ans" and "a_recovery ans = (recovery, ok)"
  shows "(open_encrypted_file f E loads st file ans \<noteq> RecoveryFailed)
         = (ok \<and> recovery \<noteq> [] \<and> stored = JStr recovery)"
  using assms
  by (auto simp add: open_encrypted_file_def Let_def split: sum.splits prod.splits)

lemma demo_loads_00ff:
  "demo_loads (header_of ''00ff'' ''0'') = Inr (JObj [(''recovery_key'', JStr ''00ff''), (''created_at'', JNum ''0'')])"
  by (simp add: demo_loads_def header_of_def Let_def)

lemma demo_loads_empty_key:
  "demo_loads (header_of '''' ''0'') = Inr (JObj [(''recovery_key'', JStr ''''), (''created_at'', JNum ''0'')])"
  by (simp add: demo_loads_def header_of_def Let_def)

theorem recovery_accepted_iff_witness:
  "read_header demo_loads (int32be 41 @ encode (header_of ''00ff'' ''0'')) = Inr (JStr ''00ff'', [])
   \<and> decrypt_text demo_prf demo_E [] ''wrong'' = Inl ValueError
   \<and> open_encrypted_file demo_prf demo_E demo_loads example_editor
        (int32be 41 @ encode (header_of ''00ff'' ''0'')) (answering ''wrong'' ''00ff'' ''new'')
       \<noteq> RecoveryFailed"
proof -
  have h: "read_header demo_loads (int32be 41 @ encode (header_of ''00ff'' ''0'')) = Inr (JStr ''00ff'', [])"
    using read_header_of [of "''00ff''" "''0''" demo_loads "[]"] demo_loads_00ff
    by (simp add: plain_def)
  have d: "decrypt_text demo_prf demo_E [] ''wrong'' = Inl ValueError"
    by (simp add: decrypt_text_short)
  have "(open_encrypted_file demo_prf demo_E demo_loads example_editor
        (int32be 41 @ encode (header_of ''00ff'' ''0'')) (answering ''wrong'' ''00ff'' ''new'')
       \<noteq> RecoveryFailed) = (True \<and> ''00ff'' \<noteq> [] \<and> JStr ''00ff'' = JStr ''00ff'')"
    by (rule recovery_accepted_iff [OF h _ _ d]) (simp_all add: answering_def)
  with h d show ?thesis by simp
qed

text \<open>
  The claim as stated (accepted if and only if string-equal to the stored key) fails for
  a file whose header stores the empty string: the empty candidate is string-equal to it
  and is refused ("Invalid recovery key.").
\<close>

theorem empty_recovery_key_refused_example:
  "read_header demo_loads (int32be 37 @ encode (header_of '''' ''0'')) = Inr (JStr '''', [])
   \<and> open_encrypted_file demo_prf demo_E demo_loads example_editor
        (int32be 37 @ encode (header_of '''' ''0'')) (answering ''wrong'' '''' ''new'')
       = RecoveryFailed"
proof -
  have h: "read_header demo_loads (int32be 37 @ encode (header_of '''' ''0'')) = Inr (JStr '''', [])"
    using read_header_of [of "''''" "''0''" demo_loads "[]"] demo_loads_empty_key
    by (simp add: plain_def)
  have d: "decrypt_text demo_prf demo_E [] ''wrong'' = Inl ValueError"
    by (simp add: decrypt_text_short)
  show ?thesis
    by (simp add: h open_encrypted_file_def answering_def d)
qed

end
